theory Spec2Isabelle
  imports Complex_Main
begin

section \<open>CrossingBench core: data model\<close>

text \<open>
  The embedding follows \<^verbatim>\<open>src/crossingbench/core.py\<close>. Python's \<^verbatim>\<open>int\<close> is
  unbounded and is modelled by \<^typ>\<open>int\<close>. Python's \<^verbatim>\<open>float\<close> is modelled by
  \<^typ>\<open>real\<close>: arithmetic is exact and there is neither rounding nor overflow, so
  the results below speak about the closed-form equations the code evaluates, not about
  the last bits of an IEEE double. The two places where the source produces an infinity
  on purpose (\<^verbatim>\<open>float("inf")\<close> for the energy gain, and its logarithm) are modelled by
  the type \<open>pyfloat\<close>. Every operation of the source that can raise
  (\<^verbatim>\<open>raise ValueError\<close>, \<^verbatim>\<open>math.log\<close>, \<^verbatim>\<open>/\<close>) returns a value of
  \<open>error + 'a\<close>.
\<close>

datatype error = ValueError string | ZeroDivisionError

definition ebind :: "error + 'a \<Rightarrow> ('a \<Rightarrow> error + 'b) \<Rightarrow> error + 'b" where
  "ebind m f = (case m of Inl e \<Rightarrow> Inl e | Inr v \<Rightarrow> f v)"

primrec emap :: "('a \<Rightarrow> error + 'b) \<Rightarrow> 'a list \<Rightarrow> error + 'b list" where
  "emap f [] = Inr []"
| "emap f (x # xs) = ebind (f x) (\<lambda>y. ebind (emap f xs) (\<lambda>ys. Inr (y # ys)))"

record BoundaryCost =
  alpha_pj_per_event :: real
  beta_pj_per_byte :: real

record ComputeCost =
  pj_per_byte :: real

record ProgramPoint =
  bytes_compute :: int
  bytes_cross :: int
  events_cross :: int

record ResultPoint =
  rp_bytes_compute :: int
  rp_bytes_cross :: int
  rp_events_cross :: int
  c_intra_pj :: real
  c_cross_pj :: real
  c_total_pj :: real
  rp_crossing_fraction :: real
  epsilon_local :: real

section \<open>Python primitives\<close>

text \<open>\<^verbatim>\<open>a / b\<close> on numbers: true division, raising on a zero divisor.\<close>

definition py_truediv :: "real \<Rightarrow> real \<Rightarrow> error + real" where
  "py_truediv a b = (if b = 0 then Inl ZeroDivisionError else Inr (a / b))"

text \<open>\<^verbatim>\<open>math.log(x)\<close>: raises \<^verbatim>\<open>ValueError\<close> outside the domain.\<close>

definition py_log :: "real \<Rightarrow> error + real" where
  "py_log x = (if x \<le> 0 then Inl (ValueError ''math domain error'') else Inr (ln x))"

text \<open>\<^verbatim>\<open>round(x)\<close> with one argument: the nearest integer, ties to the even one.\<close>

definition py_round :: "real \<Rightarrow> int" where
  "py_round x =
     (let f = \<lfloor>x\<rfloor>; d = x - of_int f
      in if d < 1 / 2 then f
         else if 1 / 2 < d then f + 1
         else if even f then f else f + 1)"

section \<open>Cost model\<close>

definition energy_intra :: "int \<Rightarrow> ComputeCost \<Rightarrow> real" where
  "energy_intra bc compute = of_int bc * pj_per_byte compute"

definition energy_cross :: "int \<Rightarrow> int \<Rightarrow> BoundaryCost \<Rightarrow> real" where
  "energy_cross b ev boundary =
     of_int ev * alpha_pj_per_event boundary + of_int b * beta_pj_per_byte boundary"

definition crossing_fraction :: "real \<Rightarrow> real \<Rightarrow> error + real" where
  "crossing_fraction c_cross c_total =
     (if c_total \<le> 0 then Inr 0 else py_truediv c_cross c_total)"

definition log_slope :: "real \<Rightarrow> real \<Rightarrow> real \<Rightarrow> real \<Rightarrow> error + real" where
  "log_slope x1 y1 x2 y2 =
     (if x1 \<le> 0 \<or> x2 \<le> 0 \<or> y1 \<le> 0 \<or> y2 \<le> 0 \<or> x1 = x2 then Inr 0
      else ebind (py_log y2) (\<lambda>ly2.
           ebind (py_log y1) (\<lambda>ly1.
           ebind (py_log x2) (\<lambda>lx2.
           ebind (py_log x1) (\<lambda>lx1.
           py_truediv (ly2 - ly1) (lx2 - lx1))))))"

definition run_point ::
  "ProgramPoint \<Rightarrow> ComputeCost \<Rightarrow> BoundaryCost \<Rightarrow> error + (real \<times> real \<times> real \<times> real)" where
  "run_point p compute boundary =
     (let c_intra = energy_intra (bytes_compute p) compute;
          c_cross = energy_cross (bytes_cross p) (events_cross p) boundary;
          c_total = c_intra + c_cross
      in ebind (crossing_fraction c_cross c_total) (\<lambda>fr.
         Inr (c_intra, c_cross, c_total, fr)))"

section \<open>Sweep generator\<close>

text \<open>The body of the first loop of \<^verbatim>\<open>sweep\<close>, for one index \<open>i\<close> of \<^verbatim>\<open>range(steps)\<close>.\<close>

definition sweep_point ::
  "int \<Rightarrow> int \<Rightarrow> int \<Rightarrow> real \<Rightarrow> real \<Rightarrow> int \<Rightarrow> error + ProgramPoint" where
  "sweep_point bc steps bpe log_min log_max i =
     ebind (py_truediv (of_int i) (of_int (steps - 1))) (\<lambda>t.
       let b = py_round (exp (log_min + t * (log_max - log_min)))
       in ebind (py_truediv (of_int b) (of_int bpe)) (\<lambda>q.
            let ev = max 1 \<lceil>q\<rceil>
            in Inr \<lparr>bytes_compute = bc, bytes_cross = b, events_cross = ev\<rparr>))"

text \<open>The body of the second loop: the point together with its four energies.\<close>

definition sweep_energy ::
  "ComputeCost \<Rightarrow> BoundaryCost \<Rightarrow> ProgramPoint \<Rightarrow>
   error + (ProgramPoint \<times> real \<times> real \<times> real \<times> real)" where
  "sweep_energy compute boundary p =
     ebind (run_point p compute boundary) (\<lambda>(c_intra, c_cross, c_total, fr).
       Inr (p, c_intra, c_cross, c_total, fr))"

text \<open>
  The body of the third loop, over \<^verbatim>\<open>enumerate(energies)\<close>. The index \<open>i - 1\<close> is
  only read when \<open>0 < i\<close>, where it is in range.
\<close>

definition sweep_result ::
  "(ProgramPoint \<times> real \<times> real \<times> real \<times> real) list \<Rightarrow>
   nat \<times> (ProgramPoint \<times> real \<times> real \<times> real \<times> real) \<Rightarrow> error + ResultPoint" where
  "sweep_result energies ie =
     (case ie of (i, (p, c_intra, c_cross, c_total, fr)) \<Rightarrow>
        ebind (if i = 0 then Inr 0
               else (case energies ! (i - 1) of (p_prev, _, _, c_total_prev, _) \<Rightarrow>
                       log_slope (of_int (bytes_cross p_prev)) c_total_prev
                                 (of_int (bytes_cross p)) c_total))
          (\<lambda>eps. Inr \<lparr>rp_bytes_compute = bytes_compute p,
                       rp_bytes_cross = bytes_cross p,
                       rp_events_cross = events_cross p,
                       c_intra_pj = c_intra,
                       c_cross_pj = c_cross,
                       c_total_pj = c_total,
                       rp_crossing_fraction = fr,
                       epsilon_local = eps\<rparr>))"

definition sweep ::
  "int \<Rightarrow> int \<Rightarrow> int \<Rightarrow> int \<Rightarrow> int \<Rightarrow> ComputeCost \<Rightarrow> BoundaryCost \<Rightarrow>
   error + ResultPoint list" where
  "sweep bc cross_min cross_max steps bpe compute boundary =
     (if steps < 2 then Inl (ValueError ''steps must be >= 2'')
      else if cross_min \<le> 0 \<or> cross_max \<le> 0 \<or> cross_min > cross_max
        then Inl (ValueError ''Require 0 < cross_min <= cross_max'')
      else if bpe \<le> 0 then Inl (ValueError ''bytes_per_event must be > 0'')
      else
        ebind (py_log (of_int cross_min)) (\<lambda>log_min.
        ebind (py_log (of_int cross_max)) (\<lambda>log_max.
        ebind (emap (sweep_point bc steps bpe log_min log_max) [0..steps - 1]) (\<lambda>points.
        ebind (emap (sweep_energy compute boundary) points) (\<lambda>energies.
        emap (sweep_result energies) (enumerate 0 energies))))))"

section \<open>Baseline-vs-reduced comparator\<close>

text \<open>
  A float that may be an infinity: the source sets the gain to \<^verbatim>\<open>float("inf")\<close> and
  then takes its logarithm and divides it.
\<close>

datatype pyfloat = Fin real | PInf | NInf

fun pf_pos :: "pyfloat \<Rightarrow> bool" where
  "pf_pos (Fin x) = (0 < x)"
| "pf_pos PInf = True"
| "pf_pos NInf = False"

fun pf_log :: "pyfloat \<Rightarrow> error + pyfloat" where
  "pf_log (Fin x) = ebind (py_log x) (\<lambda>l. Inr (Fin l))"
| "pf_log PInf = Inr PInf"
| "pf_log NInf = Inl (ValueError ''math domain error'')"

fun pf_truediv :: "pyfloat \<Rightarrow> real \<Rightarrow> error + pyfloat" where
  "pf_truediv (Fin x) d = ebind (py_truediv x d) (\<lambda>q. Inr (Fin q))"
| "pf_truediv PInf d =
     (if d = 0 then Inl ZeroDivisionError else Inr (if 0 < d then PInf else NInf))"
| "pf_truediv NInf d =
     (if d = 0 then Inl ZeroDivisionError else Inr (if 0 < d then NInf else PInf))"

text \<open>The returned dictionary has a fixed set of fifteen keys; it is a record here.\<close>

record CompareResult =
  baseline_total_pj :: real
  baseline_intra_pj :: real
  baseline_cross_pj :: real
  baseline_cross_frac :: real
  baseline_cross_bytes :: real
  baseline_events :: real
  reduced_total_pj :: real
  reduced_intra_pj :: real
  reduced_cross_pj :: real
  reduced_cross_frac :: real
  reduced_cross_bytes :: real
  reduced_events :: real
  reduce_factor :: real
  energy_gain_x :: pyfloat
  elasticity_effective :: pyfloat

definition compare_baseline_vs_reduced ::
  "int \<Rightarrow> int \<Rightarrow> int \<Rightarrow> real \<Rightarrow> ComputeCost \<Rightarrow> BoundaryCost \<Rightarrow> error + CompareResult" where
  "compare_baseline_vs_reduced bc cross_bytes bpe rf compute boundary =
     (if cross_bytes \<le> 0 then Inl (ValueError ''cross_bytes must be > 0'')
      else if bpe \<le> 0 then Inl (ValueError ''bytes_per_event must be > 0'')
      else if rf \<le> 0 then Inl (ValueError ''reduce_factor must be > 0'')
      else
        ebind (py_truediv (of_int cross_bytes) (of_int bpe)) (\<lambda>q0.
        let base_ev = max 1 \<lceil>q0\<rceil>
        in ebind (py_truediv (of_int cross_bytes) rf) (\<lambda>q1.
        let red_bytes = max 1 (py_round q1)
        in ebind (py_truediv (of_int red_bytes) (of_int bpe)) (\<lambda>q2.
        let red_ev = max 1 \<lceil>q2\<rceil>;
            base = \<lparr>bytes_compute = bc, bytes_cross = cross_bytes, events_cross = base_ev\<rparr>;
            red = \<lparr>bytes_compute = bc, bytes_cross = red_bytes, events_cross = red_ev\<rparr>
        in ebind (run_point base compute boundary)
             (\<lambda>(base_intra, base_cross, base_total, base_fr).
           ebind (run_point red compute boundary)
             (\<lambda>(red_intra, red_cross, red_total, red_fr).
           ebind (if 0 < red_total
                  then ebind (py_truediv base_total red_total) (\<lambda>g. Inr (Fin g))
                  else Inr PInf) (\<lambda>gain.
           ebind (if rf \<noteq> 1 \<and> pf_pos gain
                  then ebind (pf_log gain) (\<lambda>lg.
                       ebind (py_log rf) (\<lambda>lr. pf_truediv lg lr))
                  else Inr (Fin 0)) (\<lambda>eff_eps.
           Inr \<lparr>baseline_total_pj = base_total,
                baseline_intra_pj = base_intra,
                baseline_cross_pj = base_cross,
                baseline_cross_frac = base_fr,
                baseline_cross_bytes = of_int cross_bytes,
                baseline_events = of_int base_ev,
                reduced_total_pj = red_total,
                reduced_intra_pj = red_intra,
                reduced_cross_pj = red_cross,
                reduced_cross_frac = red_fr,
                reduced_cross_bytes = of_int red_bytes,
                reduced_events = of_int red_ev,
                reduce_factor = rf,
                energy_gain_x = gain,
                elasticity_effective = eff_eps\<rparr>))))))))"


section \<open>The sampling formulas as the specification writes them\<close>

text \<open>
  The specification gives the \<open>i\<close>-th sample of a sweep and the event count of a byte
  volume in closed form. These two definitions follow its words; the theorems below compare
  them with what \<open>sweep\<close> and \<open>compare_baseline_vs_reduced\<close> compute.
\<close>

definition spec_bytes :: "int \<Rightarrow> int \<Rightarrow> int \<Rightarrow> int \<Rightarrow> int" where
  "spec_bytes cross_min cross_max steps i =
     py_round (exp (ln (of_int cross_min)
       + (of_int i / of_int (steps - 1)) * (ln (of_int cross_max) - ln (of_int cross_min))))"

definition spec_events :: "int \<Rightarrow> int \<Rightarrow> int" where
  "spec_events b bpe = max 1 \<lceil>real_of_int b / real_of_int bpe\<rceil>"

section \<open>Auxiliary lemmas\<close>


lemma ebind_Inr [simp]: "ebind (Inr v) f = f v"
  by (simp add: ebind_def)

lemma ebind_Inl [simp]: "ebind (Inl e) f = Inl e"
  by (simp add: ebind_def)

lemma py_log_pos [simp]: "0 < x \<Longrightarrow> py_log x = Inr (ln x)"
  by (simp add: py_log_def)

lemma py_truediv_nz [simp]: "b \<noteq> 0 \<Longrightarrow> py_truediv a b = Inr (a / b)"
  by (simp add: py_truediv_def)

lemma log_slope_safe_zero:
  "x1 \<le> 0 \<or> x2 \<le> 0 \<or> y1 \<le> 0 \<or> y2 \<le> 0 \<or> x1 = x2 \<Longrightarrow> log_slope x1 y1 x2 y2 = Inr 0"
  by (simp add: log_slope_def)

lemma log_slope_regular:
  assumes "0 < x1" "0 < x2" "0 < y1" "0 < y2" "x1 \<noteq> x2"
  shows "log_slope x1 y1 x2 y2 = Inr ((ln y2 - ln y1) / (ln x2 - ln x1))"
proof -
  from assms have "ln x2 - ln x1 \<noteq> 0" by simp
  with assms show ?thesis by (simp add: log_slope_def)
qed

lemma ebind_eq_Inr: "ebind m f = Inr y \<longleftrightarrow> (\<exists>v. m = Inr v \<and> f v = Inr y)"
  by (cases m) simp_all

lemma emap_Inr_length: "emap f xs = Inr ys \<Longrightarrow> length ys = length xs"
  by (induction xs arbitrary: ys) (auto simp: ebind_eq_Inr)

lemma emap_Inr_nth: "emap f xs = Inr ys \<Longrightarrow> i < length xs \<Longrightarrow> f (xs ! i) = Inr (ys ! i)"
proof (induction xs arbitrary: ys i)
  case Nil
  then show ?case by simp
next
  case (Cons x xs)
  from Cons.prems(1) obtain y zs where y: "f x = Inr y" and zs: "emap f xs = Inr zs"
    and ys: "ys = y # zs"
    by (auto simp: ebind_eq_Inr)
  show ?case
  proof (cases i)
    case 0
    with y ys show ?thesis by simp
  next
    case (Suc j)
    with Cons.prems(2) have "j < length xs" by simp
    from Cons.IH [OF zs this] Suc ys show ?thesis by simp
  qed
qed

lemma emap_total: "(\<And>x. x \<in> set xs \<Longrightarrow> \<exists>y. f x = Inr y) \<Longrightarrow> \<exists>ys. emap f xs = Inr ys"
proof (induction xs)
  case Nil
  then show ?case by simp
next
  case (Cons x xs)
  from Cons.prems obtain y where "f x = Inr y" by auto
  moreover from Cons obtain ys where "emap f xs = Inr ys" by auto
  ultimately show ?case by simp
qed

lemma crossing_fraction_value:
  "crossing_fraction c_cross c_total = Inr (if 0 < c_total then c_cross / c_total else 0)"
  by (simp add: crossing_fraction_def)

lemma run_point_value:
  "run_point p compute boundary =
     Inr (energy_intra (bytes_compute p) compute,
          energy_cross (bytes_cross p) (events_cross p) boundary,
          energy_intra (bytes_compute p) compute
            + energy_cross (bytes_cross p) (events_cross p) boundary,
          (if 0 < energy_intra (bytes_compute p) compute
                    + energy_cross (bytes_cross p) (events_cross p) boundary
           then energy_cross (bytes_cross p) (events_cross p) boundary
                  / (energy_intra (bytes_compute p) compute
                      + energy_cross (bytes_cross p) (events_cross p) boundary)
           else 0))"
  by (simp add: run_point_def Let_def crossing_fraction_value)

lemma log_slope_returns: "\<exists>v. log_slope x1 y1 x2 y2 = Inr v"
  using log_slope_regular [of x1 x2 y1 y2] log_slope_safe_zero [of x1 x2 y1 y2]
  by (cases "x1 \<le> 0 \<or> x2 \<le> 0 \<or> y1 \<le> 0 \<or> y2 \<le> 0 \<or> x1 = x2") auto

lemma sweep_point_value:
  assumes "2 \<le> steps" "0 < bpe"
  shows "sweep_point bc steps bpe log_min log_max i =
     Inr \<lparr>bytes_compute = bc,
          bytes_cross = py_round (exp (log_min + (of_int i / of_int (steps - 1)) * (log_max - log_min))),
          events_cross = max 1 \<lceil>real_of_int (py_round (exp (log_min + (of_int i / of_int (steps - 1)) * (log_max - log_min)))) / real_of_int bpe\<rceil>\<rparr>"
  using assms by (simp add: sweep_point_def Let_def)


lemma emap_Inr_map: "(\<And>x. x \<in> set xs \<Longrightarrow> f x = Inr (g x)) \<Longrightarrow> emap f xs = Inr (map g xs)"
  by (induction xs) simp_all

lemma sweep_energy_value:
  "sweep_energy compute boundary p =
     Inr (p, energy_intra (bytes_compute p) compute,
          energy_cross (bytes_cross p) (events_cross p) boundary,
          energy_intra (bytes_compute p) compute
            + energy_cross (bytes_cross p) (events_cross p) boundary,
          (if 0 < energy_intra (bytes_compute p) compute
                    + energy_cross (bytes_cross p) (events_cross p) boundary
           then energy_cross (bytes_cross p) (events_cross p) boundary
                  / (energy_intra (bytes_compute p) compute
                      + energy_cross (bytes_cross p) (events_cross p) boundary)
           else 0))"
  by (simp add: sweep_energy_def run_point_value)

lemma sweep_result_Inr:
  assumes "sweep_result energies (i, (p, ci, cc, ct, fr)) = Inr r"
  shows "rp_bytes_compute r = bytes_compute p \<and> rp_bytes_cross r = bytes_cross p
    \<and> rp_events_cross r = events_cross p \<and> c_intra_pj r = ci \<and> c_cross_pj r = cc
    \<and> c_total_pj r = ct \<and> rp_crossing_fraction r = fr
    \<and> (if i = 0 then epsilon_local r = 0
        else log_slope (of_int (bytes_cross (fst (energies ! (i - 1)))))
               (fst (snd (snd (snd (energies ! (i - 1))))))
               (of_int (bytes_cross p)) ct = Inr (epsilon_local r))"
  using assms
  by (cases i) (auto simp: sweep_result_def ebind_eq_Inr split: prod.splits)

lemma sweep_result_total: "\<exists>r. sweep_result energies ie = Inr r"
proof -
  obtain i p ci cc ct fr where ie: "ie = (i, (p, ci, cc, ct, fr))"
    by (metis prod_cases5 surj_pair)
  obtain p' a b ct' c where e: "energies ! (i - 1) = (p', a, b, ct', c)"
    by (metis prod_cases5)
  obtain v where "log_slope (of_int (bytes_cross p')) ct' (of_int (bytes_cross p)) ct = Inr v"
    using log_slope_returns by blast
  with ie e show ?thesis
    by (simp add: sweep_result_def)
qed


lemma sweep_point_spec:
  assumes "2 \<le> steps" "0 < bpe"
  shows "sweep_point bc steps bpe (ln (of_int cmin)) (ln (of_int cmax)) i =
     Inr \<lparr>bytes_compute = bc, bytes_cross = spec_bytes cmin cmax steps i,
          events_cross = spec_events (spec_bytes cmin cmax steps i) bpe\<rparr>"
  using assms by (simp add: sweep_point_value spec_bytes_def spec_events_def)

lemma sweep_structure:
  assumes valid: "2 \<le> steps" "0 < cmin" "cmin \<le> cmax" "0 < bpe"
  shows "\<exists>rs. sweep bc cmin cmax steps bpe compute boundary = Inr rs \<and> length rs = nat steps \<and>
     (\<forall>i<nat steps.
        rp_bytes_compute (rs ! i) = bc \<and>
        rp_bytes_cross (rs ! i) = spec_bytes cmin cmax steps (int i) \<and>
        rp_events_cross (rs ! i) = spec_events (spec_bytes cmin cmax steps (int i)) bpe \<and>
        c_intra_pj (rs ! i) = energy_intra bc compute \<and>
        c_cross_pj (rs ! i) =
          energy_cross (rp_bytes_cross (rs ! i)) (rp_events_cross (rs ! i)) boundary \<and>
        c_total_pj (rs ! i) = c_intra_pj (rs ! i) + c_cross_pj (rs ! i) \<and>
        rp_crossing_fraction (rs ! i) =
          (if 0 < c_total_pj (rs ! i) then c_cross_pj (rs ! i) / c_total_pj (rs ! i) else 0) \<and>
        (if i = 0 then epsilon_local (rs ! i) = 0
         else log_slope (of_int (rp_bytes_cross (rs ! (i - 1)))) (c_total_pj (rs ! (i - 1)))
                (of_int (rp_bytes_cross (rs ! i))) (c_total_pj (rs ! i))
              = Inr (epsilon_local (rs ! i))))"
proof -
  define P where "P i = \<lparr>bytes_compute = bc, bytes_cross = spec_bytes cmin cmax steps i,
          events_cross = spec_events (spec_bytes cmin cmax steps i) bpe\<rparr>" for i
  define En where "En p = (p, energy_intra (bytes_compute p) compute,
          energy_cross (bytes_cross p) (events_cross p) boundary,
          energy_intra (bytes_compute p) compute
            + energy_cross (bytes_cross p) (events_cross p) boundary,
          (if 0 < energy_intra (bytes_compute p) compute
                    + energy_cross (bytes_cross p) (events_cross p) boundary
           then energy_cross (bytes_cross p) (events_cross p) boundary
                  / (energy_intra (bytes_compute p) compute
                      + energy_cross (bytes_cross p) (events_cross p) boundary)
           else 0))" for p :: ProgramPoint
  define points where "points = map P [0..steps - 1]"
  define energies where "energies = map En points"
  have pts: "emap (sweep_point bc steps bpe (ln (of_int cmin)) (ln (of_int cmax))) [0..steps - 1]
      = Inr points"
    unfolding points_def
    by (rule emap_Inr_map) (simp add: sweep_point_spec valid P_def)
  have ens: "emap (sweep_energy compute boundary) points = Inr energies"
    unfolding energies_def
    by (rule emap_Inr_map) (simp add: sweep_energy_value En_def)
  have len: "length energies = nat steps"
    using valid by (simp add: energies_def points_def)
  have nth: "energies ! i = En (P (int i))" if "i < nat steps" for i
    using that valid by (simp add: energies_def points_def)
  obtain rs where rs: "emap (sweep_result energies) (enumerate 0 energies) = Inr rs"
    using emap_total [of "enumerate 0 energies" "sweep_result energies"] sweep_result_total
    by blast
  have sw: "sweep bc cmin cmax steps bpe compute boundary = Inr rs"
    using valid pts ens rs by (simp add: sweep_def)
  have lrs: "length rs = nat steps"
    using emap_Inr_length [OF rs] len by simp
  have el: "sweep_result energies (i, En (P (int i))) = Inr (rs ! i)" if "i < nat steps" for i
    using emap_Inr_nth [OF rs, of i] that len nth by (simp add: nth_enumerate_eq)
  have fields: "rp_bytes_compute (rs ! i) = bc \<and>
        rp_bytes_cross (rs ! i) = spec_bytes cmin cmax steps (int i) \<and>
        rp_events_cross (rs ! i) = spec_events (spec_bytes cmin cmax steps (int i)) bpe \<and>
        c_intra_pj (rs ! i) = energy_intra bc compute \<and>
        c_cross_pj (rs ! i) =
          energy_cross (rp_bytes_cross (rs ! i)) (rp_events_cross (rs ! i)) boundary \<and>
        c_total_pj (rs ! i) = c_intra_pj (rs ! i) + c_cross_pj (rs ! i) \<and>
        rp_crossing_fraction (rs ! i) =
          (if 0 < c_total_pj (rs ! i) then c_cross_pj (rs ! i) / c_total_pj (rs ! i) else 0)"
    if "i < nat steps" for i
    using sweep_result_Inr [OF el [OF that, unfolded En_def]] by (simp add: P_def)
  have eps: "if i = 0 then epsilon_local (rs ! i) = 0
         else log_slope (of_int (rp_bytes_cross (rs ! (i - 1)))) (c_total_pj (rs ! (i - 1)))
                (of_int (rp_bytes_cross (rs ! i))) (c_total_pj (rs ! i))
              = Inr (epsilon_local (rs ! i))"
    if "i < nat steps" for i
  proof (cases "i = 0")
    case True
    with sweep_result_Inr [OF el [OF that, unfolded En_def]] show ?thesis by simp
  next
    case False
    with that have prev: "i - 1 < nat steps" by simp
    from False sweep_result_Inr [OF el [OF that, unfolded En_def]]
    have "log_slope (of_int (bytes_cross (fst (energies ! (i - 1)))))
               (fst (snd (snd (snd (energies ! (i - 1))))))
               (of_int (bytes_cross (P (int i)))) (c_total_pj (rs ! i)) = Inr (epsilon_local (rs ! i))"
      by simp
    moreover have "bytes_cross (fst (energies ! (i - 1))) = rp_bytes_cross (rs ! (i - 1))"
      using fields [OF prev] nth [OF prev] by (simp add: En_def P_def)
    moreover have "fst (snd (snd (snd (energies ! (i - 1))))) = c_total_pj (rs ! (i - 1))"
      using fields [OF prev] nth [OF prev] by (simp add: En_def P_def)
    moreover have "bytes_cross (P (int i)) = rp_bytes_cross (rs ! i)"
      using fields [OF that] by (simp add: P_def)
    ultimately show ?thesis using False by simp
  qed
  from sw lrs fields eps show ?thesis by blast
qed


lemma py_round_of_int [simp]: "py_round (of_int n) = n"
  by (simp add: py_round_def)

lemma py_round_ge_floor: "\<lfloor>x\<rfloor> \<le> py_round x"
  by (simp add: py_round_def Let_def)

lemma py_round_le_floor1: "py_round x \<le> \<lfloor>x\<rfloor> + 1"
  by (simp add: py_round_def Let_def)

lemma py_round_mono:
  assumes "x \<le> y"
  shows "py_round x \<le> py_round y"
proof (cases "\<lfloor>x\<rfloor> = \<lfloor>y\<rfloor>")
  case True
  with assms have "x - of_int \<lfloor>x\<rfloor> \<le> y - of_int \<lfloor>y\<rfloor>" by simp
  with True show ?thesis by (auto simp: py_round_def Let_def)
next
  case False
  from assms have "\<lfloor>x\<rfloor> \<le> \<lfloor>y\<rfloor>" by (rule floor_mono)
  with False have "\<lfloor>x\<rfloor> + 1 \<le> \<lfloor>y\<rfloor>" by simp
  with py_round_le_floor1 [of x] py_round_ge_floor [of y] show ?thesis by linarith
qed

lemma spec_events_ge1: "1 \<le> spec_events b bpe"
  by (simp add: spec_events_def)


lemma spec_bytes_first:
  assumes "0 < cmin"
  shows "spec_bytes cmin cmax steps 0 = cmin"
  using assms by (simp add: spec_bytes_def)


lemma spec_bytes_const:
  assumes "0 < cmin"
  shows "spec_bytes cmin cmin steps i = cmin"
  using assms by (simp add: spec_bytes_def)

lemma spec_bytes_mono:
  assumes "0 < cmin" "cmin \<le> cmax" "2 \<le> steps" "i \<le> j"
  shows "spec_bytes cmin cmax steps i \<le> spec_bytes cmin cmax steps j"
proof -
  from assms have "0 \<le> ln (real_of_int cmax) - ln (real_of_int cmin)" by simp
  moreover from assms have "real_of_int i / real_of_int (steps - 1) \<le> real_of_int j / real_of_int (steps - 1)"
    by (simp add: divide_right_mono)
  ultimately have "(real_of_int i / real_of_int (steps - 1)) * (ln (real_of_int cmax) - ln (real_of_int cmin))
      \<le> (real_of_int j / real_of_int (steps - 1)) * (ln (real_of_int cmax) - ln (real_of_int cmin))"
    by (rule mult_right_mono [rotated])
  then show ?thesis
    unfolding spec_bytes_def by (intro py_round_mono) simp
qed


lemma sweep_Inr_valid:
  assumes "sweep bc cmin cmax steps bpe compute boundary = Inr rs"
  shows "2 \<le> steps \<and> 0 < cmin \<and> 0 < cmax \<and> cmin \<le> cmax \<and> 0 < bpe"
  using assms by (auto simp: sweep_def split: if_splits)



lemma energy_cross_nonneg:
  assumes "0 \<le> alpha_pj_per_event boundary" "0 \<le> beta_pj_per_byte boundary"
    "0 \<le> b" "0 \<le> ev"
  shows "0 \<le> energy_cross b ev boundary"
  using assms by (simp add: energy_cross_def)

lemma energy_intra_nonneg:
  assumes "0 \<le> pj_per_byte compute" "0 \<le> bc"
  shows "0 \<le> energy_intra bc compute"
  using assms by (simp add: energy_intra_def)

lemma spec_bytes_pos:
  assumes "0 < cmin" "cmin \<le> cmax" "2 \<le> steps" "0 \<le> i"
  shows "0 < spec_bytes cmin cmax steps i"
  using spec_bytes_mono [OF assms(1,2,3), of 0 i] assms spec_bytes_first [of cmin cmax steps]
  by simp

lemma pf_pos_Fin_iff: "pf_pos g \<longleftrightarrow> g = PInf \<or> (\<exists>x. g = Fin x \<and> 0 < x)"
  by (cases g) simp_all

lemma compare_structure:
  assumes "0 < cb" "0 < bpe" "0 < rf"
  shows "\<exists>r. compare_baseline_vs_reduced bc cb bpe rf compute boundary = Inr r
    \<and> baseline_cross_bytes r = of_int cb
    \<and> baseline_events r = of_int (spec_events cb bpe)
    \<and> reduced_cross_bytes r = of_int (max 1 (py_round (of_int cb / rf)))
    \<and> reduced_events r = of_int (spec_events (max 1 (py_round (of_int cb / rf))) bpe)
    \<and> baseline_intra_pj r = energy_intra bc compute
    \<and> baseline_cross_pj r = energy_cross cb (spec_events cb bpe) boundary
    \<and> baseline_total_pj r = baseline_intra_pj r + baseline_cross_pj r
    \<and> baseline_cross_frac r =
         (if 0 < baseline_total_pj r then baseline_cross_pj r / baseline_total_pj r else 0)
    \<and> reduced_intra_pj r = energy_intra bc compute
    \<and> reduced_cross_pj r =
         energy_cross (max 1 (py_round (of_int cb / rf)))
           (spec_events (max 1 (py_round (of_int cb / rf))) bpe) boundary
    \<and> reduced_total_pj r = reduced_intra_pj r + reduced_cross_pj r
    \<and> reduced_cross_frac r =
         (if 0 < reduced_total_pj r then reduced_cross_pj r / reduced_total_pj r else 0)
    \<and> reduce_factor r = rf
    \<and> energy_gain_x r =
         (if 0 < reduced_total_pj r then Fin (baseline_total_pj r / reduced_total_pj r) else PInf)
    \<and> elasticity_effective r =
         (if rf \<noteq> 1 \<and> pf_pos (energy_gain_x r)
          then (case energy_gain_x r of
                  Fin g \<Rightarrow> Fin (ln g / ln rf)
                | PInf \<Rightarrow> (if 1 < rf then PInf else NInf)
                | NInf \<Rightarrow> NInf)
          else Fin 0)"
proof -
  from assms have nz: "real_of_int bpe \<noteq> 0" "rf \<noteq> 0" by simp_all
  have lnz: "ln rf \<noteq> 0" if "rf \<noteq> 1"
    using that assms by simp
  have lpos: "0 < ln rf \<longleftrightarrow> 1 < rf"
    using assms by simp
  show ?thesis
    using assms nz lnz lpos
    by (simp add: compare_baseline_vs_reduced_def Let_def run_point_value spec_events_def)
qed

lemma sweep_Inr_point:
  assumes sw: "sweep bc cmin cmax steps bpe compute boundary = Inr rs" and r: "r \<in> set rs"
  shows "rp_bytes_compute r = bc \<and> 0 < rp_bytes_cross r \<and> 1 \<le> rp_events_cross r
    \<and> c_intra_pj r = energy_intra (rp_bytes_compute r) compute
    \<and> c_cross_pj r = energy_cross (rp_bytes_cross r) (rp_events_cross r) boundary
    \<and> c_total_pj r = c_intra_pj r + c_cross_pj r
    \<and> rp_crossing_fraction r = (if 0 < c_total_pj r then c_cross_pj r / c_total_pj r else 0)"
proof -
  from sweep_Inr_valid [OF sw]
  have v: "2 \<le> steps" "0 < cmin" "cmin \<le> cmax" "0 < bpe" by simp_all
  from sweep_structure [OF v, of bc compute boundary]
  obtain rs' where sw': "sweep bc cmin cmax steps bpe compute boundary = Inr rs'"
    and len': "length rs' = nat steps"
    and all': "\<And>i. i < nat steps \<Longrightarrow>
        rp_bytes_compute (rs' ! i) = bc \<and>
        rp_bytes_cross (rs' ! i) = spec_bytes cmin cmax steps (int i) \<and>
        rp_events_cross (rs' ! i) = spec_events (spec_bytes cmin cmax steps (int i)) bpe \<and>
        c_intra_pj (rs' ! i) = energy_intra bc compute \<and>
        c_cross_pj (rs' ! i) =
          energy_cross (rp_bytes_cross (rs' ! i)) (rp_events_cross (rs' ! i)) boundary \<and>
        c_total_pj (rs' ! i) = c_intra_pj (rs' ! i) + c_cross_pj (rs' ! i) \<and>
        rp_crossing_fraction (rs' ! i) =
          (if 0 < c_total_pj (rs' ! i) then c_cross_pj (rs' ! i) / c_total_pj (rs' ! i) else 0)"
    by blast
  from sw sw' have same_rs: "rs' = rs" by simp
  from r obtain i where i: "i < length rs" and ri: "r = rs ! i"
    by (auto simp: in_set_conv_nth)
  from i len' same_rs have i': "i < nat steps" by simp
  from all' [OF i'] same_rs ri
  have f: "rp_bytes_compute r = bc" "rp_bytes_cross r = spec_bytes cmin cmax steps (int i)"
    "rp_events_cross r = spec_events (spec_bytes cmin cmax steps (int i)) bpe"
    "c_intra_pj r = energy_intra bc compute"
    "c_cross_pj r = energy_cross (rp_bytes_cross r) (rp_events_cross r) boundary"
    "c_total_pj r = c_intra_pj r + c_cross_pj r"
    "rp_crossing_fraction r = (if 0 < c_total_pj r then c_cross_pj r / c_total_pj r else 0)"
    by simp_all
  have "0 < rp_bytes_cross r"
    using f(2) spec_bytes_pos [OF v(2,3,1), of "int i"] by simp
  moreover have "1 \<le> rp_events_cross r"
    using f(3) by (simp add: spec_events_ge1)
  ultimately show ?thesis using f by simp
qed

lemma compare_Inr_valid:
  assumes "compare_baseline_vs_reduced bc cb bpe rf compute boundary = Inr r"
  shows "0 < cb \<and> 0 < bpe \<and> 0 < rf"
  using assms by (auto simp: compare_baseline_vs_reduced_def split: if_splits)




section \<open>Verified properties\<close>







text \<open>
  C4: in every sweep result the first point has \<open>epsilon_local = 0\<close>; for every later
  index \<open>i\<close> the value is \<open>log_slope\<close> of the crossing bytes and total energies of the
  points \<open>i - 1\<close> and \<open>i\<close>; and when \<open>cross_min = cross_max\<close> every point samples
  the same crossing bytes and has \<open>epsilon_local = 0\<close>.
\<close>

theorem sweep_epsilon:
  assumes "sweep bc cross_min cross_max steps bpe compute boundary = Inr rs"
  shows "rs \<noteq> [] \<and> epsilon_local (rs ! 0) = 0
    \<and> (\<forall>i. 0 < i \<and> i < length rs \<longrightarrow>
          log_slope (of_int (rp_bytes_cross (rs ! (i - 1)))) (c_total_pj (rs ! (i - 1)))
            (of_int (rp_bytes_cross (rs ! i))) (c_total_pj (rs ! i))
          = Inr (epsilon_local (rs ! i)))
    \<and> (cross_min = cross_max \<longrightarrow>
          (\<forall>i<length rs. rp_bytes_cross (rs ! i) = cross_min \<and> epsilon_local (rs ! i) = 0))"
proof -
  from sweep_Inr_valid [OF assms]
  have v: "2 \<le> steps" "0 < cross_min" "cross_min \<le> cross_max" "0 < bpe" by simp_all
  from sweep_structure [OF v, of bc compute boundary]
  obtain rs' where sw': "sweep bc cross_min cross_max steps bpe compute boundary = Inr rs'"
    and len': "length rs' = nat steps"
    and b': "\<And>i. i < nat steps \<Longrightarrow>
        rp_bytes_cross (rs' ! i) = spec_bytes cross_min cross_max steps (int i)"
    and eps': "\<And>i. i < nat steps \<Longrightarrow>
        (if i = 0 then epsilon_local (rs' ! i) = 0
         else log_slope (of_int (rp_bytes_cross (rs' ! (i - 1)))) (c_total_pj (rs' ! (i - 1)))
                (of_int (rp_bytes_cross (rs' ! i))) (c_total_pj (rs' ! i))
              = Inr (epsilon_local (rs' ! i)))"
    by blast
  from sw' assms have same_rs: "rs' = rs" by simp
  note len = len' [unfolded same_rs] and b = b' [unfolded same_rs]
    and eps = eps' [unfolded same_rs]
  from v len have ne: "rs \<noteq> []" by auto
  from v eps [of 0] have first: "epsilon_local (rs ! 0) = 0" by simp
  have later: "\<forall>i. 0 < i \<and> i < length rs \<longrightarrow>
          log_slope (of_int (rp_bytes_cross (rs ! (i - 1)))) (c_total_pj (rs ! (i - 1)))
            (of_int (rp_bytes_cross (rs ! i))) (c_total_pj (rs ! i))
          = Inr (epsilon_local (rs ! i))"
  proof (intro allI impI)
    fix i
    assume "0 < i \<and> i < length rs"
    with len have i: "i < nat steps" and nz: "i \<noteq> 0" by simp_all
    from eps [OF i] nz
    show "log_slope (of_int (rp_bytes_cross (rs ! (i - 1)))) (c_total_pj (rs ! (i - 1)))
            (of_int (rp_bytes_cross (rs ! i))) (c_total_pj (rs ! i))
          = Inr (epsilon_local (rs ! i))"
      by simp
  qed
  have flat: "rp_bytes_cross (rs ! i) = cross_min \<and> epsilon_local (rs ! i) = 0"
    if eq: "cross_min = cross_max" and i: "i < length rs" for i
  proof -
    have same: "rp_bytes_cross (rs ! k) = cross_min" if "k < nat steps" for k
      using b [OF that] eq v by (simp add: spec_bytes_const)
    from i len have i': "i < nat steps" by simp
    show ?thesis
    proof (cases "i = 0")
      case True
      with same [OF i'] first show ?thesis by simp
    next
      case False
      with i' have "i - 1 < nat steps" by simp
      from same [OF this] same [OF i'] eps [OF i'] False
      have "log_slope (of_int cross_min) (c_total_pj (rs ! (i - 1)))
              (of_int cross_min) (c_total_pj (rs ! i)) = Inr (epsilon_local (rs ! i))"
        by simp
      then have "epsilon_local (rs ! i) = 0"
        by (simp add: log_slope_safe_zero)
      with same [OF i'] show ?thesis by simp
    qed
  qed
  from ne first later flat show ?thesis by blast
qed

theorem sweep_epsilon_witness:
  "\<exists>rs. sweep 100 1000 1000 2 256 \<lparr>pj_per_byte = 1 / 4\<rparr>
           \<lparr>alpha_pj_per_event = 0, beta_pj_per_byte = 1\<rparr> = Inr rs
    \<and> length rs = 2
    \<and> epsilon_local (rs ! 0) = 0 \<and> epsilon_local (rs ! 1) = 0
    \<and> rp_bytes_cross (rs ! 0) = 1000 \<and> rp_bytes_cross (rs ! 1) = 1000"
proof -
  have "\<exists>rs. sweep 100 1000 1000 2 256 \<lparr>pj_per_byte = 1 / 4\<rparr>
           \<lparr>alpha_pj_per_event = 0, beta_pj_per_byte = 1\<rparr> = Inr rs \<and> length rs = nat 2"
    using sweep_structure [of 2 1000 1000 256 100 "\<lparr>pj_per_byte = 1 / 4\<rparr>"
           "\<lparr>alpha_pj_per_event = 0, beta_pj_per_byte = 1\<rparr>"]
    by fastforce
  then obtain rs where sw: "sweep 100 1000 1000 2 256 \<lparr>pj_per_byte = 1 / 4\<rparr>
           \<lparr>alpha_pj_per_event = 0, beta_pj_per_byte = 1\<rparr> = Inr rs"
    and len: "length rs = 2" by auto
  from sweep_epsilon [OF sw] len
  have "epsilon_local (rs ! 0) = 0 \<and> epsilon_local (rs ! 1) = 0
    \<and> rp_bytes_cross (rs ! 0) = 1000 \<and> rp_bytes_cross (rs ! 1) = 1000"
    by simp
  with sw len show ?thesis by blast
qed

text \<open>
  C7, as amended: \<open>crossing_fraction\<close> never raises; its value lies in \<open>[0, 1]\<close>
  exactly when \<open>c_total \<le> 0\<close> or \<open>0 \<le> c_cross \<le> c_total\<close> (which is what
  \<open>run_point\<close> passes for non-negative costs and counts); it is 0 whenever
  \<open>c_total \<le> 0\<close>; \<open>crossing_fraction 0 0 = 0\<close>, \<open>crossing_fraction x x = 1\<close> for
  \<open>0 < x\<close>, and \<open>crossing_fraction 50 100 = 1/2\<close>.
\<close>

theorem crossing_fraction_range:
  "(\<exists>v. crossing_fraction c_cross c_total = Inr v
        \<and> ((0 \<le> v \<and> v \<le> 1) \<longleftrightarrow> (c_total \<le> 0 \<or> (0 \<le> c_cross \<and> c_cross \<le> c_total))))
   \<and> (c_total \<le> 0 \<longrightarrow> crossing_fraction c_cross c_total = Inr 0)
   \<and> crossing_fraction 0 0 = Inr 0
   \<and> (0 < x \<longrightarrow> crossing_fraction x x = Inr 1)
   \<and> crossing_fraction 50 100 = Inr (1 / 2)"
proof -
  have "(0 \<le> c_cross / c_total \<and> c_cross / c_total \<le> 1) \<longleftrightarrow> (0 \<le> c_cross \<and> c_cross \<le> c_total)"
    if "0 < c_total"
    using that by (simp add: zero_le_divide_iff)
  then show ?thesis
    by (auto simp: crossing_fraction_value)
qed

theorem crossing_fraction_range_witness:
  "crossing_fraction 100 100 = Inr 1 \<and> crossing_fraction 7 (- 3) = Inr 0
   \<and> crossing_fraction 50 100 = Inr (1 / 2)"
  using crossing_fraction_range [of 7 "- 3" 100] by simp

text \<open>
  C7 as stated (a value in \<open>[0, 1]\<close> for all real inputs) fails: the function does not
  clamp, and \<open>crossing_fraction 200 100\<close> is 2.
\<close>

theorem crossing_fraction_range_counterexample:
  "crossing_fraction 200 100 = Inr 2 \<and> \<not> ((2::real) \<le> 1)"
  by (simp add: crossing_fraction_value)



text \<open>
  C2: every evaluation of a point by \<open>run_point\<close> succeeds and satisfies
  \<open>c_total = c_intra + c_cross\<close>, \<open>fraction = c_cross / c_total\<close> when \<open>0 < c_total\<close> and
  0 otherwise, \<open>c_intra = bytes_compute * pj_per_byte\<close> and
  \<open>c_cross = events_cross * alpha + bytes_cross * beta\<close>; the three energies are
  non-negative when all cost parameters and counts are. The same holds for every result
  point the sweep returns and for the baseline and reduced entries the comparison returns.
\<close>

theorem energy_invariants:
  "(\<exists>ci cc ct fr. run_point p compute boundary = Inr (ci, cc, ct, fr)
      \<and> ct = ci + cc
      \<and> fr = (if 0 < ct then cc / ct else 0)
      \<and> ci = of_int (bytes_compute p) * pj_per_byte compute
      \<and> cc = of_int (events_cross p) * alpha_pj_per_event boundary
             + of_int (bytes_cross p) * beta_pj_per_byte boundary
      \<and> (0 \<le> pj_per_byte compute \<and> 0 \<le> alpha_pj_per_event boundary
           \<and> 0 \<le> beta_pj_per_byte boundary \<and> 0 \<le> bytes_compute p
           \<and> 0 \<le> bytes_cross p \<and> 0 \<le> events_cross p
          \<longrightarrow> 0 \<le> ci \<and> 0 \<le> cc \<and> 0 \<le> ct))
   \<and> (\<forall>rs. sweep bc cross_min cross_max steps bpe compute boundary = Inr rs \<longrightarrow>
        (\<forall>r \<in> set rs.
           c_total_pj r = c_intra_pj r + c_cross_pj r
         \<and> rp_crossing_fraction r = (if 0 < c_total_pj r then c_cross_pj r / c_total_pj r else 0)
         \<and> c_intra_pj r = of_int (rp_bytes_compute r) * pj_per_byte compute
         \<and> c_cross_pj r = of_int (rp_events_cross r) * alpha_pj_per_event boundary
               + of_int (rp_bytes_cross r) * beta_pj_per_byte boundary
         \<and> (0 \<le> pj_per_byte compute \<and> 0 \<le> alpha_pj_per_event boundary
              \<and> 0 \<le> beta_pj_per_byte boundary \<and> 0 \<le> bc
             \<longrightarrow> 0 \<le> c_intra_pj r \<and> 0 \<le> c_cross_pj r \<and> 0 \<le> c_total_pj r)))
   \<and> (\<forall>r. compare_baseline_vs_reduced bc cross_bytes bpe rf compute boundary = Inr r \<longrightarrow>
           baseline_total_pj r = baseline_intra_pj r + baseline_cross_pj r
         \<and> baseline_cross_frac r =
             (if 0 < baseline_total_pj r then baseline_cross_pj r / baseline_total_pj r else 0)
         \<and> baseline_intra_pj r = of_int bc * pj_per_byte compute
         \<and> baseline_cross_pj r = baseline_events r * alpha_pj_per_event boundary
               + baseline_cross_bytes r * beta_pj_per_byte boundary
         \<and> reduced_total_pj r = reduced_intra_pj r + reduced_cross_pj r
         \<and> reduced_cross_frac r =
             (if 0 < reduced_total_pj r then reduced_cross_pj r / reduced_total_pj r else 0)
         \<and> reduced_intra_pj r = of_int bc * pj_per_byte compute
         \<and> reduced_cross_pj r = reduced_events r * alpha_pj_per_event boundary
               + reduced_cross_bytes r * beta_pj_per_byte boundary
         \<and> (0 \<le> pj_per_byte compute \<and> 0 \<le> alpha_pj_per_event boundary
              \<and> 0 \<le> beta_pj_per_byte boundary \<and> 0 \<le> bc
             \<longrightarrow> 0 \<le> baseline_intra_pj r \<and> 0 \<le> baseline_cross_pj r \<and> 0 \<le> baseline_total_pj r
               \<and> 0 \<le> reduced_intra_pj r \<and> 0 \<le> reduced_cross_pj r \<and> 0 \<le> reduced_total_pj r))"
proof (intro conjI)
  show "\<exists>ci cc ct fr. run_point p compute boundary = Inr (ci, cc, ct, fr)
      \<and> ct = ci + cc
      \<and> fr = (if 0 < ct then cc / ct else 0)
      \<and> ci = of_int (bytes_compute p) * pj_per_byte compute
      \<and> cc = of_int (events_cross p) * alpha_pj_per_event boundary
             + of_int (bytes_cross p) * beta_pj_per_byte boundary
      \<and> (0 \<le> pj_per_byte compute \<and> 0 \<le> alpha_pj_per_event boundary
           \<and> 0 \<le> beta_pj_per_byte boundary \<and> 0 \<le> bytes_compute p
           \<and> 0 \<le> bytes_cross p \<and> 0 \<le> events_cross p
          \<longrightarrow> 0 \<le> ci \<and> 0 \<le> cc \<and> 0 \<le> ct)"
    by (simp add: run_point_value energy_intra_def energy_cross_def)
next
  show "\<forall>rs. sweep bc cross_min cross_max steps bpe compute boundary = Inr rs \<longrightarrow>
        (\<forall>r \<in> set rs.
           c_total_pj r = c_intra_pj r + c_cross_pj r
         \<and> rp_crossing_fraction r = (if 0 < c_total_pj r then c_cross_pj r / c_total_pj r else 0)
         \<and> c_intra_pj r = of_int (rp_bytes_compute r) * pj_per_byte compute
         \<and> c_cross_pj r = of_int (rp_events_cross r) * alpha_pj_per_event boundary
               + of_int (rp_bytes_cross r) * beta_pj_per_byte boundary
         \<and> (0 \<le> pj_per_byte compute \<and> 0 \<le> alpha_pj_per_event boundary
              \<and> 0 \<le> beta_pj_per_byte boundary \<and> 0 \<le> bc
             \<longrightarrow> 0 \<le> c_intra_pj r \<and> 0 \<le> c_cross_pj r \<and> 0 \<le> c_total_pj r))"
  proof (intro allI impI ballI)
    fix rs r
    assume sw: "sweep bc cross_min cross_max steps bpe compute boundary = Inr rs"
      and r: "r \<in> set rs"
    from sweep_Inr_point [OF sw r]
    have f: "rp_bytes_compute r = bc" "0 < rp_bytes_cross r" "1 \<le> rp_events_cross r"
      "c_intra_pj r = energy_intra (rp_bytes_compute r) compute"
      "c_cross_pj r = energy_cross (rp_bytes_cross r) (rp_events_cross r) boundary"
      "c_total_pj r = c_intra_pj r + c_cross_pj r"
      "rp_crossing_fraction r = (if 0 < c_total_pj r then c_cross_pj r / c_total_pj r else 0)"
      by simp_all
    have nn: "0 \<le> c_intra_pj r \<and> 0 \<le> c_cross_pj r \<and> 0 \<le> c_total_pj r"
      if "0 \<le> pj_per_byte compute \<and> 0 \<le> alpha_pj_per_event boundary
              \<and> 0 \<le> beta_pj_per_byte boundary \<and> 0 \<le> bc"
    proof -
      from that f(1,4) have "0 \<le> c_intra_pj r" by (simp add: energy_intra_nonneg)
      moreover from that f(2,3,5) have "0 \<le> c_cross_pj r" by (simp add: energy_cross_nonneg)
      ultimately show ?thesis using f(6) by simp
    qed
    from f(4) have i: "c_intra_pj r = of_int (rp_bytes_compute r) * pj_per_byte compute"
      by (simp add: energy_intra_def)
    from f(5) have c: "c_cross_pj r = of_int (rp_events_cross r) * alpha_pj_per_event boundary
               + of_int (rp_bytes_cross r) * beta_pj_per_byte boundary"
      by (simp add: energy_cross_def)
    from f(6,7) i c nn
    show "c_total_pj r = c_intra_pj r + c_cross_pj r
         \<and> rp_crossing_fraction r = (if 0 < c_total_pj r then c_cross_pj r / c_total_pj r else 0)
         \<and> c_intra_pj r = of_int (rp_bytes_compute r) * pj_per_byte compute
         \<and> c_cross_pj r = of_int (rp_events_cross r) * alpha_pj_per_event boundary
               + of_int (rp_bytes_cross r) * beta_pj_per_byte boundary
         \<and> (0 \<le> pj_per_byte compute \<and> 0 \<le> alpha_pj_per_event boundary
              \<and> 0 \<le> beta_pj_per_byte boundary \<and> 0 \<le> bc
             \<longrightarrow> 0 \<le> c_intra_pj r \<and> 0 \<le> c_cross_pj r \<and> 0 \<le> c_total_pj r)"
      by blast
  qed
next
  show "\<forall>r. compare_baseline_vs_reduced bc cross_bytes bpe rf compute boundary = Inr r \<longrightarrow>
           baseline_total_pj r = baseline_intra_pj r + baseline_cross_pj r
         \<and> baseline_cross_frac r =
             (if 0 < baseline_total_pj r then baseline_cross_pj r / baseline_total_pj r else 0)
         \<and> baseline_intra_pj r = of_int bc * pj_per_byte compute
         \<and> baseline_cross_pj r = baseline_events r * alpha_pj_per_event boundary
               + baseline_cross_bytes r * beta_pj_per_byte boundary
         \<and> reduced_total_pj r = reduced_intra_pj r + reduced_cross_pj r
         \<and> reduced_cross_frac r =
             (if 0 < reduced_total_pj r then reduced_cross_pj r / reduced_total_pj r else 0)
         \<and> reduced_intra_pj r = of_int bc * pj_per_byte compute
         \<and> reduced_cross_pj r = reduced_events r * alpha_pj_per_event boundary
               + reduced_cross_bytes r * beta_pj_per_byte boundary
         \<and> (0 \<le> pj_per_byte compute \<and> 0 \<le> alpha_pj_per_event boundary
              \<and> 0 \<le> beta_pj_per_byte boundary \<and> 0 \<le> bc
             \<longrightarrow> 0 \<le> baseline_intra_pj r \<and> 0 \<le> baseline_cross_pj r \<and> 0 \<le> baseline_total_pj r
               \<and> 0 \<le> reduced_intra_pj r \<and> 0 \<le> reduced_cross_pj r \<and> 0 \<le> reduced_total_pj r)"
  proof (intro allI impI)
    fix r
    assume c: "compare_baseline_vs_reduced bc cross_bytes bpe rf compute boundary = Inr r"
    from compare_Inr_valid [OF c] have v: "0 < cross_bytes" "0 < bpe" "0 < rf" by simp_all
    define rb where "rb = max 1 (py_round (real_of_int cross_bytes / rf))"
    from compare_structure [OF v, of bc compute boundary] c
    have f: "baseline_cross_bytes r = of_int cross_bytes"
      "baseline_events r = of_int (spec_events cross_bytes bpe)"
      "reduced_cross_bytes r = of_int rb"
      "reduced_events r = of_int (spec_events rb bpe)"
      "baseline_intra_pj r = energy_intra bc compute"
      "baseline_cross_pj r = energy_cross cross_bytes (spec_events cross_bytes bpe) boundary"
      "baseline_total_pj r = baseline_intra_pj r + baseline_cross_pj r"
      "baseline_cross_frac r =
         (if 0 < baseline_total_pj r then baseline_cross_pj r / baseline_total_pj r else 0)"
      "reduced_intra_pj r = energy_intra bc compute"
      "reduced_cross_pj r = energy_cross rb (spec_events rb bpe) boundary"
      "reduced_total_pj r = reduced_intra_pj r + reduced_cross_pj r"
      "reduced_cross_frac r =
         (if 0 < reduced_total_pj r then reduced_cross_pj r / reduced_total_pj r else 0)"
      unfolding rb_def by auto
    have rbpos: "0 \<le> rb" by (simp add: rb_def)
    have evpos: "0 \<le> spec_events b bpe" for b
      using spec_events_ge1 [of b bpe] by simp
    have nn: "0 \<le> baseline_intra_pj r \<and> 0 \<le> baseline_cross_pj r \<and> 0 \<le> baseline_total_pj r
               \<and> 0 \<le> reduced_intra_pj r \<and> 0 \<le> reduced_cross_pj r \<and> 0 \<le> reduced_total_pj r"
      if "0 \<le> pj_per_byte compute \<and> 0 \<le> alpha_pj_per_event boundary
              \<and> 0 \<le> beta_pj_per_byte boundary \<and> 0 \<le> bc"
    proof -
      from that have i: "0 \<le> energy_intra bc compute" by (simp add: energy_intra_nonneg)
      from that v have b: "0 \<le> energy_cross cross_bytes (spec_events cross_bytes bpe) boundary"
        by (simp add: energy_cross_nonneg evpos)
      from that rbpos have d: "0 \<le> energy_cross rb (spec_events rb bpe) boundary"
        by (simp add: energy_cross_nonneg evpos)
      from i b d f(5,6,7,9,10,11) show ?thesis by simp
    qed
    from f nn
    show "baseline_total_pj r = baseline_intra_pj r + baseline_cross_pj r
         \<and> baseline_cross_frac r =
             (if 0 < baseline_total_pj r then baseline_cross_pj r / baseline_total_pj r else 0)
         \<and> baseline_intra_pj r = of_int bc * pj_per_byte compute
         \<and> baseline_cross_pj r = baseline_events r * alpha_pj_per_event boundary
               + baseline_cross_bytes r * beta_pj_per_byte boundary
         \<and> reduced_total_pj r = reduced_intra_pj r + reduced_cross_pj r
         \<and> reduced_cross_frac r =
             (if 0 < reduced_total_pj r then reduced_cross_pj r / reduced_total_pj r else 0)
         \<and> reduced_intra_pj r = of_int bc * pj_per_byte compute
         \<and> reduced_cross_pj r = reduced_events r * alpha_pj_per_event boundary
               + reduced_cross_bytes r * beta_pj_per_byte boundary
         \<and> (0 \<le> pj_per_byte compute \<and> 0 \<le> alpha_pj_per_event boundary
              \<and> 0 \<le> beta_pj_per_byte boundary \<and> 0 \<le> bc
             \<longrightarrow> 0 \<le> baseline_intra_pj r \<and> 0 \<le> baseline_cross_pj r \<and> 0 \<le> baseline_total_pj r
               \<and> 0 \<le> reduced_intra_pj r \<and> 0 \<le> reduced_cross_pj r \<and> 0 \<le> reduced_total_pj r)"
      by (simp add: energy_intra_def energy_cross_def)
  qed
qed

theorem energy_invariants_witness:
  "run_point \<lparr>bytes_compute = 100, bytes_cross = 10, events_cross = 3\<rparr>
     \<lparr>pj_per_byte = 1 / 4\<rparr> \<lparr>alpha_pj_per_event = 2, beta_pj_per_byte = 1\<rparr>
   = Inr (25, 16, 41, 16 / 41)
   \<and> (\<exists>rs. sweep 100 10 1000 2 10 \<lparr>pj_per_byte = 1 / 4\<rparr>
           \<lparr>alpha_pj_per_event = 2, beta_pj_per_byte = 1\<rparr> = Inr rs
        \<and> rs \<noteq> []
        \<and> c_total_pj (rs ! 0) = c_intra_pj (rs ! 0) + c_cross_pj (rs ! 0)
        \<and> 0 \<le> c_total_pj (rs ! 0))
   \<and> (\<exists>r. compare_baseline_vs_reduced 100 100 10 2 \<lparr>pj_per_byte = 1 / 4\<rparr>
           \<lparr>alpha_pj_per_event = 2, beta_pj_per_byte = 1\<rparr> = Inr r
        \<and> baseline_total_pj r = baseline_intra_pj r + baseline_cross_pj r
        \<and> 0 \<le> reduced_total_pj r)"
proof -
  let ?p = "\<lparr>bytes_compute = 100, bytes_cross = 10, events_cross = 3\<rparr>"
  let ?c = "\<lparr>pj_per_byte = 1 / 4\<rparr>"
  let ?b = "\<lparr>alpha_pj_per_event = 2, beta_pj_per_byte = 1\<rparr>"
  note inv = energy_invariants [of ?p ?c ?b 100 10 1000 2 10 100 2]
  from inv have rp: "run_point ?p ?c ?b = Inr (25, 16, 41, 16 / 41)"
    by auto
  from sweep_structure [of 2 10 1000 10 100 ?c ?b]
  obtain rs where sw: "sweep 100 10 1000 2 10 ?c ?b = Inr rs" and len: "length rs = nat 2"
    by auto
  from len have ne: "rs \<noteq> []" and mem: "rs ! 0 \<in> set rs" by auto
  from inv [THEN conjunct2, THEN conjunct1, rule_format, OF sw mem]
  have s0: "c_total_pj (rs ! 0) = c_intra_pj (rs ! 0) + c_cross_pj (rs ! 0)
      \<and> 0 \<le> c_total_pj (rs ! 0)"
    by simp
  from compare_structure [of 100 10 2 100 ?c ?b]
  obtain r where c: "compare_baseline_vs_reduced 100 100 10 2 ?c ?b = Inr r"
    by auto
  from inv [THEN conjunct2, THEN conjunct2, rule_format, OF c]
  have c0: "baseline_total_pj r = baseline_intra_pj r + baseline_cross_pj r
      \<and> 0 \<le> reduced_total_pj r"
    by simp
  from rp sw ne s0 c c0 show ?thesis by blast
qed







end
